theory Spec2Isabelle
  imports Main "HOL-Library.Sublist"
begin

section \<open>The format checker \<^verbatim>\<open>check_format.py\<close>\<close>

text \<open>
  The script reads file names from standard input, and for each name prints the name,
  reads the file, sends the file through \<^verbatim>\<open>sed | clang-format | sed\<close>, compares the
  two texts and prints a verdict; it exits with the number of files whose texts differ.

  What the model fixes:
  \<^item> Bytes are a \<open>string\<close> (a list of 8-bit characters). A text (a Python \<^verbatim>\<open>str\<close>) is
    represented by its UTF-8 encoding, a \<open>string\<close> too: two texts are equal when their
    encodings are, and the characters the script looks at (line feed, carriage return,
    whitespace) are found in the encoding as they are in the text. Decoding with
    \<^verbatim>\<open>'utf-8'\<close> is then the test that the bytes are well-formed UTF-8; decoding with the
    encoding of the locale, which \<^verbatim>\<open>open(name, 'r')\<close> and \<^verbatim>\<open>sys.stdin\<close> use, is a
    parameter. Both can fail, and the failure is an exception of the model.
  \<^item> The file system is a partial map from a path to the bytes of the file that
    \<^verbatim>\<open>open(name, 'r')\<close> can open and read; a path that is missing, a directory or
    unreadable is not in its domain. No other process changes it while the script runs.
  \<^item> \<^verbatim>\<open>clang-format\<close> is not part of the repository: what it prints for an input is a
    parameter, any function.
  \<^item> \<^verbatim>\<open>sed\<close> substitutes within lines; neither pattern of the script contains a line
    terminator, so the substitution is modelled on the whole text, and the text it prints
    ends as its input ends (as GNU sed does for a last line without terminator). The
    script gives the name to \<^verbatim>\<open>sed\<close> as an argument of its own, with no \<^verbatim>\<open>--\<close> before
    it: GNU sed takes a name that begins with \<^verbatim>\<open>-\<close> as options (or, for \<^verbatim>\<open>-\<close> alone, as
    its standard input) and not as the file to read. What it then prints and what it
    does to the file system is a parameter.
  \<^item> The exceptions of the model are those of \<^verbatim>\<open>open\<close> (the file cannot be read), of the
    two decodings, and of \<^verbatim>\<open>Popen\<close> (the program is not found). The script looks at no
    exit status of the three processes, so a formatter that fails is a formatter that
    prints what it prints. A name comes from standard input and goes to standard output
    through the same encoding, so printing it does not fail.
\<close>

subsection \<open>Characters and Python's string operations\<close>

definition LF :: char where
  "LF = CHR 0x0A"

definition CR :: char where
  "CR = CHR 0x0D"

text \<open>The characters for which \<^verbatim>\<open>str.isspace\<close> holds, each in UTF-8: the ASCII ones
  (\<open>09\<close> to \<open>0D\<close>, \<open>1C\<close> to \<open>20\<close>), then \<open>U+0085\<close>, \<open>U+00A0\<close>, \<open>U+1680\<close>, \<open>U+2000\<close> to
  \<open>U+200A\<close>, \<open>U+2028\<close>, \<open>U+2029\<close>, \<open>U+202F\<close>, \<open>U+205F\<close> and \<open>U+3000\<close>.\<close>

definition whitespace :: "string list" where
  "whitespace =
     [[CHR 0x09], [CHR 0x0A], [CHR 0x0B], [CHR 0x0C], [CHR 0x0D],
      [CHR 0x1C], [CHR 0x1D], [CHR 0x1E], [CHR 0x1F], [CHR 0x20],
      [CHR 0xC2, CHR 0x85], [CHR 0xC2, CHR 0xA0], [CHR 0xE1, CHR 0x9A, CHR 0x80],
      [CHR 0xE2, CHR 0x80, CHR 0x80], [CHR 0xE2, CHR 0x80, CHR 0x81],
      [CHR 0xE2, CHR 0x80, CHR 0x82], [CHR 0xE2, CHR 0x80, CHR 0x83],
      [CHR 0xE2, CHR 0x80, CHR 0x84], [CHR 0xE2, CHR 0x80, CHR 0x85],
      [CHR 0xE2, CHR 0x80, CHR 0x86], [CHR 0xE2, CHR 0x80, CHR 0x87],
      [CHR 0xE2, CHR 0x80, CHR 0x88], [CHR 0xE2, CHR 0x80, CHR 0x89],
      [CHR 0xE2, CHR 0x80, CHR 0x8A], [CHR 0xE2, CHR 0x80, CHR 0xA8],
      [CHR 0xE2, CHR 0x80, CHR 0xA9], [CHR 0xE2, CHR 0x80, CHR 0xAF],
      [CHR 0xE2, CHR 0x81, CHR 0x9F], [CHR 0xE3, CHR 0x80, CHR 0x80]]"

text \<open>\<^verbatim>\<open>lstrip\<close> and \<^verbatim>\<open>rstrip\<close>: as long as the text starts with one of the given
  characters, that character is removed. (The lemma is for the termination proof.)\<close>

lemma find_prefix_shorter:
  "find (\<lambda>w. w \<noteq> [] \<and> prefix w s) ws = Some w \<Longrightarrow> length (drop (length w) s) < length s"
  by (auto simp: find_Some_iff prefix_def)

function strip_left :: "string list \<Rightarrow> string \<Rightarrow> string" where
  "strip_left ws s =
     (case find (\<lambda>w. w \<noteq> [] \<and> prefix w s) ws of
        None \<Rightarrow> s
      | Some w \<Rightarrow> strip_left ws (drop (length w) s))"
  by pat_completeness auto
termination
  by (relation "measure (\<lambda>(ws, s). length s)") (auto dest: find_prefix_shorter)

declare strip_left.simps [simp del]

definition lstrip :: "string \<Rightarrow> string" where
  "lstrip s = strip_left whitespace s"

definition rstrip :: "string \<Rightarrow> string" where
  "rstrip s = rev (strip_left (map rev whitespace) (rev s))"

text \<open>\<^verbatim>\<open>name.strip()\<close>: leading and trailing whitespace removed.\<close>

definition strip :: "string \<Rightarrow> string" where
  "strip s = rstrip (lstrip s)"

text \<open>\<^verbatim>\<open>readlines()\<close> on the text of \<^verbatim>\<open>sys.stdin\<close>: the text cut after every line feed;
  each line keeps its line feed, and a last line without one is a line too.\<close>

fun readlines :: "string \<Rightarrow> string list" where
  "readlines [] = []"
| "readlines (c # cs) =
     (if c = LF then [LF] # readlines cs
      else (case readlines cs of
              [] \<Rightarrow> [[c]]
            | l # ls \<Rightarrow> (c # l) # ls))"

text \<open>The newline translation of a file opened with \<^verbatim>\<open>open(name, 'r')\<close>: text mode with
  the default \<^verbatim>\<open>newline=None\<close> turns \<open>CR LF\<close> and a lone \<open>CR\<close> into \<open>LF\<close>.\<close>

fun universal_newlines :: "string \<Rightarrow> string" where
  "universal_newlines [] = []"
| "universal_newlines [c] = (if c = CR then [LF] else [c])"
| "universal_newlines (c # d # cs) =
     (if c = CR \<and> d = LF then LF # universal_newlines cs
      else if c = CR then LF # universal_newlines (d # cs)
      else c # universal_newlines (d # cs))"

subsection \<open>Decoding\<close>

definition byte :: "char \<Rightarrow> nat" where
  "byte c = of_char c"

definition cont :: "char \<Rightarrow> bool" where
  "cont c = (0x80 \<le> byte c \<and> byte c \<le> 0xBF)"

text \<open>The next \<open>n\<close> bytes are continuation bytes; the next byte lies between two
  bounds.\<close>

definition conts :: "nat \<Rightarrow> string \<Rightarrow> bool" where
  "conts n r = (n \<le> length r \<and> list_all cont (take n r))"

definition second :: "nat \<Rightarrow> nat \<Rightarrow> string \<Rightarrow> bool" where
  "second lo hi r = (case r of [] \<Rightarrow> False | c # cs \<Rightarrow> lo \<le> byte c \<and> byte c \<le> hi)"

text \<open>The length of the well-formed UTF-8 sequence at the start of the bytes, 0 when
  there is none: no overlong form, no surrogate, nothing above \<open>U+10FFFF\<close>.\<close>

definition utf8_seq :: "string \<Rightarrow> nat" where
  "utf8_seq s =
     (case s of
        [] \<Rightarrow> 0
      | b # r \<Rightarrow>
          if byte b < 0x80 then 1
          else if 0xC2 \<le> byte b \<and> byte b \<le> 0xDF then (if conts 1 r then 2 else 0)
          else if byte b = 0xE0 then (if second 0xA0 0xBF r \<and> conts 2 r then 3 else 0)
          else if byte b = 0xED then (if second 0x80 0x9F r \<and> conts 2 r then 3 else 0)
          else if 0xE1 \<le> byte b \<and> byte b \<le> 0xEF then (if conts 2 r then 3 else 0)
          else if byte b = 0xF0 then (if second 0x90 0xBF r \<and> conts 3 r then 4 else 0)
          else if byte b = 0xF4 then (if second 0x80 0x8F r \<and> conts 3 r then 4 else 0)
          else if 0xF1 \<le> byte b \<and> byte b \<le> 0xF3 then (if conts 3 r then 4 else 0)
          else 0)"

function utf8_valid :: "string \<Rightarrow> bool" where
  "utf8_valid s =
     (if s = [] then True
      else if utf8_seq s = 0 then False
      else utf8_valid (drop (utf8_seq s) s))"
  by pat_completeness auto
termination
  by (relation "measure length") auto

declare utf8_valid.simps [simp del]

datatype error = FileAccessError | UnicodeDecodeError | PipelineError

text \<open>\<^verbatim>\<open>bytes.decode('utf-8')\<close>, strict: the text, or the exception.\<close>

definition decode_utf8 :: "string \<Rightarrow> error + string" where
  "decode_utf8 bytes = (if utf8_valid bytes then Inr bytes else Inl UnicodeDecodeError)"

text \<open>Decoding with an encoding given as a partial function from bytes to text. No
  bytes are no text, in every encoding.\<close>

definition decode :: "(string \<Rightarrow> string option) \<Rightarrow> string \<Rightarrow> error + string" where
  "decode codec bytes =
     (if bytes = [] then Inr []
      else (case codec bytes of
              None \<Rightarrow> Inl UnicodeDecodeError
            | Some text \<Rightarrow> Inr text))"

text \<open>The UTF-8 codec, for a locale whose encoding is UTF-8.\<close>

definition utf8_codec :: "string \<Rightarrow> string option" where
  "utf8_codec bytes = (if utf8_valid bytes then Some bytes else None)"

subsection \<open>The two substitutions of \<^verbatim>\<open>sed\<close>\<close>

definition marker :: string where
  "marker = ''#pragma omp''"

lemma length_marker [simp]: "length marker = 11"
  by (simp add: marker_def)

text \<open>\<^verbatim>\<open>sed 's/#pragma omp/\/\/#pragma omp/g'\<close>: every occurrence of the marker, found
  from left to right, gets \<open>//\<close> in front of it.\<close>

function sed_mask :: "string \<Rightarrow> string" where
  "sed_mask [] = []"
| "sed_mask (c # cs) =
     (if prefix marker (c # cs)
      then ''//'' @ marker @ sed_mask (drop (length marker) (c # cs))
      else c # sed_mask cs)"
  by pat_completeness auto
termination
  by (relation "measure length") auto

text \<open>The pattern \<^verbatim>\<open>\/\/ *#pragma omp\<close> at the start of a text: two slashes, any
  number of spaces, the marker. The result is the text after the match.\<close>

definition match_commented :: "string \<Rightarrow> string option" where
  "match_commented s =
     (if prefix ''//'' s
      then (let r = dropWhile (\<lambda>c. c = CHR '' '') (drop 2 s)
            in if prefix marker r then Some (drop (length marker) r) else None)
      else None)"

lemma match_commented_shorter:
  "match_commented s = Some r \<Longrightarrow> length r < length s"
proof -
  assume m: "match_commented s = Some r"
  let ?t = "dropWhile (\<lambda>c. c = CHR '' '') (drop 2 s)"
  from m have p: "prefix ''//'' s" and q: "prefix marker ?t" and r: "r = drop (length marker) ?t"
    by (auto simp: match_commented_def Let_def split: if_splits)
  from p have "2 \<le> length s"
    by (auto simp: prefix_def)
  moreover have "length ?t \<le> length (drop 2 s)"
    by (rule length_dropWhile_le)
  moreover from q have "11 \<le> length ?t"
    by (auto simp: prefix_def)
  ultimately show ?thesis
    using r by simp
qed

text \<open>\<^verbatim>\<open>sed 's/\/\/ *#pragma omp/#pragma omp/g'\<close>: every match of the pattern, found
  from left to right, is replaced by the marker.\<close>

function sed_unmask :: "string \<Rightarrow> string" where
  "sed_unmask [] = []"
| "sed_unmask (c # cs) =
     (case match_commented (c # cs) of
        Some r \<Rightarrow> marker @ sed_unmask r
      | None \<Rightarrow> c # sed_unmask cs)"
  by pat_completeness auto
termination
  by (relation "measure length") (auto dest: match_commented_shorter)

subsection \<open>The state of a run\<close>

text \<open>What the script finds on the machine: the programs on the search path
  (\<^verbatim>\<open>Popen\<close> raises when the program is not found), what
  \<^verbatim>\<open>clang-format-mp-7.0 -style=file\<close> prints for an input, what \<^verbatim>\<open>sed SCRIPT name\<close>
  prints and leaves of the file system for a name that begins with \<^verbatim>\<open>-\<close>, and the
  encodings of the locale and of standard input.\<close>

record tools =
  on_path :: "string \<Rightarrow> bool"
  clang_format :: "string \<Rightarrow> string"
  sed_dashed :: "string \<Rightarrow> (string \<rightharpoonup> string) \<Rightarrow> string \<times> (string \<rightharpoonup> string)"
  locale_codec :: "string \<Rightarrow> string option"
  stdin_codec :: "string \<Rightarrow> string option"

record state =
  disk :: "string \<rightharpoonup> string"
  stdout :: string
  status :: nat

text \<open>\<^verbatim>\<open>print(s, end=e)\<close>; the default end is a line feed.\<close>

definition py_print :: "string \<Rightarrow> string \<Rightarrow> state \<Rightarrow> state" where
  "py_print s e st = st\<lparr>stdout := stdout st @ s @ e\<rparr>"

text \<open>The bytes behind a path: no file has the empty path.\<close>

definition file_bytes :: "(string \<rightharpoonup> string) \<Rightarrow> string \<Rightarrow> string option" where
  "file_bytes dsk name = (if name = [] then None else dsk name)"

text \<open>\<^verbatim>\<open>with open(name, 'r') as f: original = f.read()\<close>: the bytes of the file, decoded
  with the encoding of the locale, newlines translated.\<close>

definition open_read :: "tools \<Rightarrow> state \<Rightarrow> string \<Rightarrow> error + string" where
  "open_read env st name =
     (case file_bytes (disk st) name of
        None \<Rightarrow> Inl FileAccessError
      | Some bytes \<Rightarrow>
          (case decode (locale_codec env) bytes of
             Inl e \<Rightarrow> Inl e
           | Inr text \<Rightarrow> Inr (universal_newlines text)))"

text \<open>A name that \<^verbatim>\<open>sed\<close> does not take as the file to read.\<close>

definition dashed :: "string \<Rightarrow> bool" where
  "dashed name = (case name of [] \<Rightarrow> False | c # cs \<Rightarrow> c = CHR ''-'')"

text \<open>The first process, \<^verbatim>\<open>sed SCRIPT name\<close>: what it prints, and the file system it
  leaves. It reads the file itself; for a file it cannot read it prints nothing on its
  standard output.\<close>

definition sed_file :: "tools \<Rightarrow> (string \<rightharpoonup> string) \<Rightarrow> string \<Rightarrow> string \<times> (string \<rightharpoonup> string)" where
  "sed_file env dsk name =
     (if dashed name then sed_dashed env name dsk
      else (case file_bytes dsk name of
              None \<Rightarrow> ([], dsk)
            | Some bytes \<Rightarrow> (sed_mask bytes, dsk)))"

text \<open>The three processes \<open>p1\<close>, \<open>p2\<close>, \<open>p3\<close> and
  \<^verbatim>\<open>p3.communicate()[0].decode('utf-8')\<close>: the file system they leave, and the text or
  the exception. The first process is started before the second is looked for.\<close>

definition pipeline :: "tools \<Rightarrow> state \<Rightarrow> string \<Rightarrow> (string \<rightharpoonup> string) \<times> (error + string)" where
  "pipeline env st name =
     (if on_path env ''sed''
      then (case sed_file env (disk st) name of
              (out1, dsk1) \<Rightarrow>
                if on_path env ''clang-format-mp-7.0''
                then (dsk1, decode_utf8 (sed_unmask (clang_format env out1)))
                else (dsk1, Inl PipelineError))
      else (disk st, Inl PipelineError))"

text \<open>The body of the loop. An exception leaves the loop with the state it found.\<close>

definition check_file :: "tools \<Rightarrow> string \<Rightarrow> state \<Rightarrow> state \<times> error option" where
  "check_file env name st0 =
     (let st1 = py_print (name @ '': '') [] st0 in
      case open_read env st1 name of
        Inl e \<Rightarrow> (st1, Some e)
      | Inr original \<Rightarrow>
          (case pipeline env st1 name of
             (dsk2, Inl e) \<Rightarrow> (st1\<lparr>disk := dsk2\<rparr>, Some e)
           | (dsk2, Inr formatted) \<Rightarrow>
               (let st2 = st1\<lparr>disk := dsk2\<rparr> in
                if original = formatted
                then (py_print (''OK'' @ [LF]) [LF] st2, None)
                else (let st3 = py_print (''needs formatting'' @ [LF]) [LF] st2
                      in (st3\<lparr>status := status st3 + 1\<rparr>, None)))))"

text \<open>\<^verbatim>\<open>for name in files: ...\<close>\<close>

fun check_files :: "tools \<Rightarrow> string list \<Rightarrow> state \<Rightarrow> state \<times> error option" where
  "check_files env [] st = (st, None)"
| "check_files env (name # names) st =
     (case check_file env name st of
        (st', Some e) \<Rightarrow> (st', Some e)
      | (st', None) \<Rightarrow> check_files env names st')"

text \<open>How the process ends: \<^verbatim>\<open>sys.exit(status)\<close>, or an exception nobody catches.\<close>

datatype outcome = Exit nat | Uncaught error

text \<open>The exit status the parent process sees. The operating system keeps the low
  eight bits of the argument of \<^verbatim>\<open>sys.exit\<close>; the interpreter ends with status 1
  after an uncaught exception.\<close>

fun exit_code :: "outcome \<Rightarrow> nat" where
  "exit_code (Exit n) = n mod 256"
| "exit_code (Uncaught e) = 1"

text \<open>The state before the loop: \<^verbatim>\<open>status = 0\<close>, nothing printed.\<close>

definition initial :: "(string \<rightharpoonup> string) \<Rightarrow> state" where
  "initial dsk = \<lparr>disk = dsk, stdout = [], status = 0\<rparr>"

text \<open>\<^verbatim>\<open>sys.stdin.readlines()\<close>, from the bytes of standard input.\<close>

definition stdin_readlines :: "tools \<Rightarrow> string \<Rightarrow> error + string list" where
  "stdin_readlines env stdin =
     (case decode (stdin_codec env) stdin of
        Inl e \<Rightarrow> Inl e
      | Inr text \<Rightarrow> Inr (readlines text))"

text \<open>\<^verbatim>\<open>files = [name.strip() for name in sys.stdin.readlines()]\<close>\<close>

definition files :: "tools \<Rightarrow> string \<Rightarrow> error + string list" where
  "files env stdin =
     (case stdin_readlines env stdin of
        Inl e \<Rightarrow> Inl e
      | Inr lines \<Rightarrow> Inr (map strip lines))"

text \<open>The whole script, from the tools, the file system and the standard input.\<close>

definition main :: "tools \<Rightarrow> (string \<rightharpoonup> string) \<Rightarrow> string \<Rightarrow> state \<times> outcome" where
  "main env dsk stdin =
     (case files env stdin of
        Inl e \<Rightarrow> (initial dsk, Uncaught e)
      | Inr names \<Rightarrow>
          (case check_files env names (initial dsk) of
             (st, Some e) \<Rightarrow> (st, Uncaught e)
           | (st, None) \<Rightarrow> (st, Exit (status st))))"

subsection \<open>Notions the properties are stated with\<close>

text \<open>What the three processes print for a file with the given bytes, when the first
  one reads the file.\<close>

definition formatted_of :: "tools \<Rightarrow> string \<Rightarrow> string" where
  "formatted_of env bytes = sed_unmask (clang_format env (sed_mask bytes))"

text \<open>The check of a file raises nothing and runs on the file: the file can be read and
  decoded, its name is taken by \<^verbatim>\<open>sed\<close> as a file, both programs are found, and what
  the processes print is UTF-8.\<close>

definition checkable :: "tools \<Rightarrow> (string \<rightharpoonup> string) \<Rightarrow> string \<Rightarrow> bool" where
  "checkable env dsk name =
     (case file_bytes dsk name of
        None \<Rightarrow> False
      | Some bytes \<Rightarrow>
          (case decode (locale_codec env) bytes of
             Inl e \<Rightarrow> False
           | Inr text \<Rightarrow>
               \<not> dashed name \<and> on_path env ''sed'' \<and> on_path env ''clang-format-mp-7.0'' \<and>
               utf8_valid (formatted_of env bytes)))"

text \<open>A file conforms when the text Python reads from it is the text the processes
  print.\<close>

definition conforms :: "tools \<Rightarrow> (string \<rightharpoonup> string) \<Rightarrow> string \<Rightarrow> bool" where
  "conforms env dsk name =
     (case file_bytes dsk name of
        None \<Rightarrow> False
      | Some bytes \<Rightarrow>
          (case decode (locale_codec env) bytes of
             Inl e \<Rightarrow> False
           | Inr text \<Rightarrow> universal_newlines text = formatted_of env bytes))"

text \<open>What a finished check of one file has printed.\<close>

definition report :: "tools \<Rightarrow> (string \<rightharpoonup> string) \<Rightarrow> string \<Rightarrow> string" where
  "report env dsk name =
     name @ '': '' @ (if conforms env dsk name then ''OK'' else ''needs formatting'') @ [LF, LF]"

text \<open>A line with a verdict and the empty line after it, as one of the two \<^verbatim>\<open>print\<close>
  calls of the script writes them.\<close>

definition report_line :: "string \<Rightarrow> bool \<Rightarrow> string" where
  "report_line name ok =
     name @ '': '' @ (if ok then ''OK'' else ''needs formatting'') @ [LF, LF]"

definition non_conforming :: "tools \<Rightarrow> (string \<rightharpoonup> string) \<Rightarrow> string list \<Rightarrow> nat" where
  "non_conforming env dsk names = length (filter (\<lambda>name. \<not> conforms env dsk name) names)"

text \<open>A line of whitespace only: stripping it from the left leaves nothing.\<close>

definition blank :: "string \<Rightarrow> bool" where
  "blank l = (lstrip l = [])"

subsection \<open>Concrete tools and files\<close>

text \<open>GNU sed on the two names with a dash that are used below, after the script of the
  first process. \<^verbatim>\<open>-n\<close> is an option: no file is named, standard input is at its end
  (the script has read all of it), nothing is printed. \<^verbatim>\<open>-ew victim.txt\<close> is the option
  \<^verbatim>\<open>-e\<close> with the command \<^verbatim>\<open>w victim.txt\<close>: that file is opened for writing, and so
  emptied; nothing is printed. No other name with a dash is used below; for them the
  function has the value it has for \<^verbatim>\<open>-n\<close>, which is what GNU sed does for some options
  and not for all.\<close>

definition gnu_dashed :: "string \<Rightarrow> (string \<rightharpoonup> string) \<Rightarrow> string \<times> (string \<rightharpoonup> string)" where
  "gnu_dashed name dsk =
     (if name = ''-ew victim.txt'' then ([], dsk(''victim.txt'' \<mapsto> [])) else ([], dsk))"

text \<open>Four formatters, on a machine with both programs, GNU sed and a UTF-8 locale: one
  prints its input as it is, one turns every tab into a space, one breaks one long
  comment line in two, one puts spaces around \<open>=\<close> and behind the slashes of a comment.\<close>

definition echo_tools :: tools where
  "echo_tools =
     \<lparr>on_path = (\<lambda>p. True), clang_format = (\<lambda>t. t), sed_dashed = gnu_dashed,
      locale_codec = utf8_codec, stdin_codec = utf8_codec\<rparr>"

definition untab_tools :: tools where
  "untab_tools =
     \<lparr>on_path = (\<lambda>p. True),
      clang_format = map (\<lambda>c. if c = CHR 0x09 then CHR '' '' else c),
      sed_dashed = gnu_dashed, locale_codec = utf8_codec, stdin_codec = utf8_codec\<rparr>"

definition reflow_tools :: tools where
  "reflow_tools =
     \<lparr>on_path = (\<lambda>p. True),
      clang_format = (\<lambda>t. if t = ''//#pragma omp parallel for'' @ [LF]
                           then ''//#pragma omp parallel'' @ [LF] @ ''// for'' @ [LF]
                           else t),
      sed_dashed = gnu_dashed, locale_codec = utf8_codec, stdin_codec = utf8_codec\<rparr>"

definition tidy_tools :: tools where
  "tidy_tools =
     \<lparr>on_path = (\<lambda>p. True),
      clang_format =
        (\<lambda>t. if t = ''x=1;'' @ [LF] @ ''  //#pragma omp parallel  for'' @ [LF] @ ''y=2;'' @ [LF]
              then ''x = 1;'' @ [LF] @ ''  // #pragma omp parallel  for'' @ [LF] @ ''y = 2;'' @ [LF]
              else t),
      sed_dashed = gnu_dashed, locale_codec = utf8_codec, stdin_codec = utf8_codec\<rparr>"

text \<open>A file system with three files; the last one has the line ending \<open>CR LF\<close>.\<close>

definition demo_disk :: "string \<rightharpoonup> string" where
  "demo_disk =
     [''a.cpp'' \<mapsto> ''int x;'' @ [LF],
      ''b.cpp'' \<mapsto> [CHR 0x09] @ ''int y;'' @ [LF],
      ''d.cpp'' \<mapsto> ''int z;'' @ [CR, LF]]"

text \<open>A file system with two files whose names begin with a dash, and a third file.\<close>

definition dashed_disk :: "string \<rightharpoonup> string" where
  "dashed_disk =
     [''-n'' \<mapsto> ''int x;'' @ [LF],
      ''-ew victim.txt'' \<mapsto> ''int x;'' @ [LF],
      ''victim.txt'' \<mapsto> ''precious'' @ [LF]]"

text \<open>A file system with one file, a comment in Latin-1: the byte \<open>0xE9\<close> is no
  UTF-8.\<close>

definition latin_disk :: "string \<rightharpoonup> string" where
  "latin_disk = [''l.cpp'' \<mapsto> ''// caf'' @ [CHR 0xE9, LF]]"

section \<open>Properties\<close>

subsection \<open>The substitutions\<close>

lemma marker_Cons: "marker = CHR ''#'' # ''pragma omp''"
  by (simp add: marker_def)

lemma sed_mask_space [simp]: "sed_mask (CHR '' '' # cs) = CHR '' '' # sed_mask cs"
  by (simp add: marker_Cons)

lemma sed_mask_marker [simp]: "sed_mask (marker @ s) = ''//'' @ marker @ sed_mask s"
  by (simp add: marker_Cons)

lemma sed_mask_no_marker:
  "\<not> prefix marker (c # cs) \<Longrightarrow> sed_mask (c # cs) = c # sed_mask cs"
  by simp

declare sed_mask.simps(2) [simp del]
declare sed_unmask.simps(2) [simp del]

text \<open>A text without a slash that starts the masked text starts the text itself.\<close>

lemma prefix_sed_mask:
  "CHR ''/'' \<notin> set p \<Longrightarrow> prefix p (sed_mask t) \<Longrightarrow> prefix p t"
proof (induction p arbitrary: t)
  case Nil
  then show ?case by simp
next
  case (Cons a p)
  show ?case
  proof (cases t)
    case Nil
    with Cons.prems show ?thesis by simp
  next
    case (Cons c cs)
    show ?thesis
    proof (cases "prefix marker (c # cs)")
      case True
      then obtain u where "c # cs = marker @ u" by (auto simp: prefix_def)
      with Cons.prems \<open>t = c # cs\<close> show ?thesis by simp
    next
      case False
      with Cons.prems \<open>t = c # cs\<close> have "a = c" and "prefix p (sed_mask cs)"
        by (simp_all add: sed_mask_no_marker)
      with Cons.IH [of cs] Cons.prems(1) \<open>t = c # cs\<close> show ?thesis by simp
    qed
  qed
qed

text \<open>In a masked text every marker stands behind two slashes.\<close>

lemma no_marker_after_mask: "\<not> prefix marker (sed_mask t)"
proof
  assume m: "prefix marker (sed_mask t)"
  have "CHR ''/'' \<notin> set marker" by (simp add: marker_def)
  from prefix_sed_mask [OF this m] obtain r where "t = marker @ r"
    by (auto simp: prefix_def)
  then have "sed_mask t = CHR ''/'' # CHR ''/'' # marker @ sed_mask r"
    by simp
  with m have "prefix marker (CHR ''/'' # CHR ''/'' # marker @ sed_mask r)"
    by simp
  then show False by (simp add: marker_Cons)
qed

lemma dropWhile_space_sed_mask:
  "dropWhile (\<lambda>c. c = CHR '' '') (sed_mask t) = sed_mask (dropWhile (\<lambda>c. c = CHR '' '') t)"
proof (induction t)
  case Nil
  then show ?case by simp
next
  case (Cons c cs)
  show ?case
  proof (cases "c = CHR '' ''")
    case True
    with Cons show ?thesis by simp
  next
    case False
    then have l: "dropWhile (\<lambda>c. c = CHR '' '') (c # cs) = c # cs"
      by simp
    have "dropWhile (\<lambda>c. c = CHR '' '') (sed_mask (c # cs)) = sed_mask (c # cs)"
    proof (cases "prefix marker (c # cs)")
      case True
      then obtain u where "c # cs = marker @ u" by (auto simp: prefix_def)
      then have "sed_mask (c # cs) = CHR ''/'' # CHR ''/'' # marker @ sed_mask u"
        by simp
      then show ?thesis by simp
    next
      case m: False
      with False show ?thesis by (simp add: sed_mask_no_marker)
    qed
    with l show ?thesis by simp
  qed
qed

lemma match_commented_masked: "match_commented (''//'' @ marker @ s) = Some s"
  by (simp add: match_commented_def marker_Cons)

text \<open>Where the first substitution found no marker, the second finds no commented
  marker in the masked text.\<close>

lemma match_commented_unmasked:
  assumes "\<not> prefix marker (c # cs)"
  shows "match_commented (c # sed_mask cs) = None"
proof (cases "prefix ''//'' (c # sed_mask cs)")
  case False
  then show ?thesis unfolding match_commented_def by (simp only: if_False)
next
  case True
  then obtain r where c: "c = CHR ''/''" and r: "sed_mask cs = CHR ''/'' # r"
    by (cases "sed_mask cs") auto
  show ?thesis
  proof (cases "prefix marker cs")
    case True
    then obtain u where "cs = marker @ u" by (auto simp: prefix_def)
    with r have "r = CHR ''/'' # marker @ sed_mask u" by simp
    with c r show ?thesis by (simp add: match_commented_def marker_Cons)
  next
    case False
    from r obtain d ds where cs: "cs = d # ds" by (cases cs) auto
    with False r have "d = CHR ''/''" and "r = sed_mask ds"
      by (simp_all add: sed_mask_no_marker)
    with c r no_marker_after_mask [of "dropWhile (\<lambda>c. c = CHR '' '') ds"]
    show ?thesis
      by (simp add: match_commented_def dropWhile_space_sed_mask)
  qed
qed

text \<open>The second substitution undoes the first.\<close>

lemma sed_unmask_sed_mask: "sed_unmask (sed_mask s) = s"
proof (induction s rule: sed_mask.induct)
  case 1
  then show ?case by simp
next
  case (2 c cs)
  show ?case
  proof (cases "prefix marker (c # cs)")
    case True
    then obtain u where u: "c # cs = marker @ u" by (auto simp: prefix_def)
    with True 2 have "sed_unmask (sed_mask u) = u" by simp
    have "sed_unmask (''//'' @ marker @ sed_mask u) = marker @ sed_unmask (sed_mask u)"
      using match_commented_masked [of "sed_mask u"] by (simp add: sed_unmask.simps(2))
    with u \<open>sed_unmask (sed_mask u) = u\<close> show ?thesis
      by simp
  next
    case False
    with 2 have "sed_unmask (sed_mask cs) = cs" by simp
    with False match_commented_unmasked [OF False] show ?thesis
      by (simp add: sed_mask_no_marker sed_unmask.simps(2))
  qed
qed

text \<open>The spaces in the second pattern: a formatter may put spaces between the slashes
  and the marker, and the second substitution still restores the marker.\<close>

lemma sed_unmask_spaces:
  "sed_unmask (''//'' @ replicate k (CHR '' '') @ marker @ r) = marker @ sed_unmask r"
proof -
  have "dropWhile (\<lambda>c. c = CHR '' '') (replicate k (CHR '' '') @ marker @ r) = marker @ r"
    by (induction k) (simp_all add: marker_Cons)
  then have "match_commented (''//'' @ replicate k (CHR '' '') @ marker @ r) = Some r"
    by (simp add: match_commented_def)
  then show ?thesis
    by (simp add: sed_unmask.simps(2))
qed

text \<open>Both substitutions work line by line: no match goes across a line feed.\<close>

lemma prefix_before_LF:
  "LF \<notin> set p \<Longrightarrow> prefix p (t @ LF # y) = prefix p t"
proof (induction p arbitrary: t)
  case Nil
  then show ?case by simp
next
  case (Cons a p)
  then show ?case by (cases t) auto
qed

lemma LF_notin_marker: "LF \<notin> set marker"
  by (simp add: marker_def LF_def)

lemma sed_mask_LF: "sed_mask (x @ LF # y) = sed_mask x @ LF # sed_mask y"
proof (induction x rule: sed_mask.induct)
  case 1
  have "\<not> prefix marker (LF # y)"
    by (simp add: marker_Cons LF_def)
  then show ?case by (simp add: sed_mask_no_marker)
next
  case (2 c cs)
  have p: "prefix marker ((c # cs) @ LF # y) = prefix marker (c # cs)"
    by (rule prefix_before_LF [OF LF_notin_marker])
  show ?case
  proof (cases "prefix marker (c # cs)")
    case True
    then obtain u where u: "c # cs = marker @ u" by (auto simp: prefix_def)
    with True 2 have "sed_mask (u @ LF # y) = sed_mask u @ LF # sed_mask y"
      by simp
    moreover have "sed_mask ((marker @ u) @ LF # y) = ''//'' @ marker @ sed_mask (u @ LF # y)"
      using sed_mask_marker [of "u @ LF # y"] by simp
    ultimately show ?thesis
      using u sed_mask_marker [of u] by simp
  next
    case False
    with p have "\<not> prefix marker (c # cs @ LF # y)" by simp
    with False 2 show ?thesis by (simp add: sed_mask_no_marker)
  qed
qed

lemma match_commented_LF:
  "match_commented (x @ LF # y) = map_option (\<lambda>r. r @ LF # y) (match_commented x)"
proof (cases "prefix ''//'' x")
  case False
  have "LF \<notin> set ''//''" by (simp add: LF_def)
  from prefix_before_LF [OF this, of x y] False have "\<not> prefix ''//'' (x @ LF # y)"
    by simp
  with False show ?thesis by (simp add: match_commented_def)
next
  case True
  then obtain r where x: "x = ''//'' @ r" by (auto simp: prefix_def)
  let ?sp = "\<lambda>c. c = CHR '' ''"
  have d: "dropWhile ?sp (r @ LF # y) = dropWhile ?sp r @ LF # y"
    by (induction r) (simp_all add: LF_def)
  have p: "prefix marker (dropWhile ?sp r @ LF # y) = prefix marker (dropWhile ?sp r)"
    by (rule prefix_before_LF [OF LF_notin_marker])
  show ?thesis
  proof (cases "prefix marker (dropWhile ?sp r)")
    case True
    then have "11 \<le> length (dropWhile ?sp r)" by (auto simp: prefix_def)
    with True p d x show ?thesis by (simp add: match_commented_def)
  next
    case False
    with p d x show ?thesis by (simp add: match_commented_def)
  qed
qed

lemma sed_unmask_LF: "sed_unmask (x @ LF # y) = sed_unmask x @ LF # sed_unmask y"
proof (induction x rule: sed_unmask.induct)
  case 1
  have "match_commented (LF # y) = None"
    by (simp add: match_commented_def LF_def)
  then show ?case by (simp add: sed_unmask.simps(2))
next
  case (2 c cs)
  show ?case
  proof (cases "match_commented (c # cs)")
    case None
    with match_commented_LF [of "c # cs" y] have "match_commented (c # cs @ LF # y) = None"
      by simp
    with None 2 show ?thesis by (simp add: sed_unmask.simps(2))
  next
    case (Some r)
    with match_commented_LF [of "c # cs" y] have "match_commented (c # cs @ LF # y) = Some (r @ LF # y)"
      by simp
    with Some 2 show ?thesis by (simp add: sed_unmask.simps(2))
  qed
qed

text \<open>Text before a line boundary and the text after it are handled apart.\<close>

lemma sed_mask_lines:
  "pre = [] \<or> last pre = LF \<Longrightarrow> sed_mask (pre @ z) = sed_mask pre @ sed_mask z"
proof (cases pre rule: rev_cases)
  case Nil
  then show ?thesis by simp
next
  case (snoc p c)
  assume "pre = [] \<or> last pre = LF"
  with snoc have "c = LF" by simp
  with snoc sed_mask_LF [of p z] sed_mask_LF [of p "[]"] show ?thesis by simp
qed

lemma sed_unmask_lines:
  "pre = [] \<or> last pre = LF \<Longrightarrow> sed_unmask (pre @ z) = sed_unmask pre @ sed_unmask z"
proof (cases pre rule: rev_cases)
  case Nil
  then show ?thesis by simp
next
  case (snoc p c)
  assume "pre = [] \<or> last pre = LF"
  with snoc have "c = LF" by simp
  with snoc sed_unmask_LF [of p z] sed_unmask_LF [of p "[]"] show ?thesis by simp
qed

text \<open>Indentation is left alone.\<close>

lemma sed_mask_indent: "CHR ''#'' \<notin> set ind \<Longrightarrow> sed_mask (ind @ x) = ind @ sed_mask x"
proof (induction ind)
  case Nil
  then show ?case by simp
next
  case (Cons c cs)
  then have "\<not> prefix marker (c # cs @ x)" by (auto simp: marker_Cons)
  with Cons show ?case by (simp add: sed_mask_no_marker)
qed

lemma sed_unmask_indent: "CHR ''/'' \<notin> set ind \<Longrightarrow> sed_unmask (ind @ x) = ind @ sed_unmask x"
proof (induction ind)
  case Nil
  then show ?case by simp
next
  case (Cons c cs)
  then have "match_commented (c # cs @ x) = None" by (auto simp: match_commented_def)
  with Cons show ?case by (simp add: sed_unmask.simps(2))
qed

subsection \<open>One file\<close>

lemma open_read_stdout [simp]:
  "open_read env (st\<lparr>stdout := out\<rparr>) name = open_read env st name"
  by (simp add: open_read_def)

lemma pipeline_stdout [simp]:
  "pipeline env (st\<lparr>stdout := out\<rparr>) name = pipeline env st name"
  by (simp add: pipeline_def)

text \<open>The comparison, once both texts are there.\<close>

lemma check_file_compares:
  assumes "open_read env st name = Inr original"
    and "pipeline env st name = (dsk', Inr formatted)"
  shows "check_file env name st =
     (if original = formatted
      then (st\<lparr>disk := dsk', stdout := stdout st @ name @ '': '' @ ''OK'' @ [LF, LF]\<rparr>, None)
      else (st\<lparr>disk := dsk',
               stdout := stdout st @ name @ '': '' @ ''needs formatting'' @ [LF, LF],
               status := status st + 1\<rparr>, None))"
  using assms by (simp add: check_file_def Let_def py_print_def)

lemma open_read_checkable:
  assumes "checkable env (disk st) name"
  obtains bytes decoded where "file_bytes (disk st) name = Some bytes"
    and "decode (locale_codec env) bytes = Inr decoded"
    and "open_read env st name = Inr (universal_newlines decoded)"
    and "pipeline env st name = (disk st, Inr (formatted_of env bytes))"
proof -
  from assms obtain bytes where b: "file_bytes (disk st) name = Some bytes"
    by (auto simp: checkable_def split: option.splits)
  with assms obtain decoded where t: "decode (locale_codec env) bytes = Inr decoded"
    by (auto simp: checkable_def split: sum.splits)
  from assms b t have c: "\<not> dashed name" "on_path env ''sed''"
    "on_path env ''clang-format-mp-7.0''" "utf8_valid (formatted_of env bytes)"
    by (simp_all add: checkable_def)
  from b t have "open_read env st name = Inr (universal_newlines decoded)"
    by (simp add: open_read_def)
  moreover from b c have "pipeline env st name = (disk st, Inr (formatted_of env bytes))"
    by (simp add: pipeline_def sed_file_def decode_utf8_def formatted_of_def)
  ultimately show ?thesis
    using b t that by blast
qed

lemma check_file_checkable:
  assumes "checkable env (disk st) name"
  shows "check_file env name st =
     (st\<lparr>stdout := stdout st @ report env (disk st) name,
         status := status st + (if conforms env (disk st) name then 0 else 1)\<rparr>, None)"
proof -
  from assms obtain bytes decoded where b: "file_bytes (disk st) name = Some bytes"
    and t: "decode (locale_codec env) bytes = Inr decoded"
    and o: "open_read env st name = Inr (universal_newlines decoded)"
    and p: "pipeline env st name = (disk st, Inr (formatted_of env bytes))"
    by (rule open_read_checkable)
  from b t have c: "conforms env (disk st) name = (universal_newlines decoded = formatted_of env bytes)"
    by (simp add: conforms_def)
  from check_file_compares [OF o p] c show ?thesis
    by (simp add: report_def)
qed

lemma check_file_unreadable:
  assumes "file_bytes (disk st) name = None"
  shows "check_file env name st = (st\<lparr>stdout := stdout st @ name @ '': ''\<rparr>, Some FileAccessError)"
  using assms
  by (simp add: check_file_def Let_def open_read_def py_print_def)

text \<open>Only the first process, on a name with a dash, can change the file system.\<close>

lemma disk_pipeline: "\<not> dashed name \<Longrightarrow> fst (pipeline env st name) = disk st"
  by (simp add: pipeline_def sed_file_def split: option.splits)

lemma disk_check_file: "\<not> dashed name \<Longrightarrow> disk (fst (check_file env name st)) = disk st"
proof -
  assume d: "\<not> dashed name"
  let ?st1 = "py_print (name @ '': '') [] st"
  obtain dsk2 r where p: "pipeline env ?st1 name = (dsk2, r)"
    by (cases "pipeline env ?st1 name")
  with disk_pipeline [OF d, of env ?st1] have "dsk2 = disk st"
    by (simp add: py_print_def)
  with p show ?thesis
    by (simp add: check_file_def Let_def py_print_def split: sum.splits)
qed

subsection \<open>The loop\<close>

lemma disk_check_files:
  "\<forall>name \<in> set names. \<not> dashed name \<Longrightarrow> disk (fst (check_files env names st)) = disk st"
proof (induction names arbitrary: st)
  case Nil
  then show ?case by simp
next
  case (Cons name names)
  obtain st' r where c: "check_file env name st = (st', r)"
    by (cases "check_file env name st")
  with Cons.prems have "disk st' = disk st"
    using disk_check_file [of name env st] by simp
  with c Cons.IH [of st'] Cons.prems show ?case
    by (cases r) simp_all
qed

lemma check_files_checkable:
  assumes "\<forall>name \<in> set names. checkable env (disk st) name"
  shows "check_files env names st =
     (st\<lparr>stdout := stdout st @ concat (map (report env (disk st)) names),
         status := status st + non_conforming env (disk st) names\<rparr>, None)"
  using assms
proof (induction names arbitrary: st)
  case Nil
  then show ?case by (simp add: non_conforming_def)
next
  case (Cons name names)
  let ?st' = "st\<lparr>stdout := stdout st @ report env (disk st) name,
         status := status st + (if conforms env (disk st) name then 0 else 1)\<rparr>"
  from Cons.prems have "check_file env name st = (?st', None)"
    by (simp add: check_file_checkable)
  moreover from Cons.prems have "\<forall>n \<in> set names. checkable env (disk ?st') n"
    by simp
  ultimately show ?case
    using Cons.IH [of ?st'] by (simp add: non_conforming_def)
qed

lemma check_files_append:
  "check_files env (xs @ ys) st =
     (case check_files env xs st of
        (st', Some e) \<Rightarrow> (st', Some e)
      | (st', None) \<Rightarrow> check_files env ys st')"
proof (induction xs arbitrary: st)
  case Nil
  then show ?case by simp
next
  case (Cons x xs)
  obtain st' r where c: "check_file env x st = (st', r)"
    by (cases "check_file env x st")
  with Cons.IH [of st'] show ?case
    by (cases r) simp_all
qed

lemma check_files_abort:
  assumes "\<forall>name \<in> set pre. checkable env (disk st) name"
    and "file_bytes (disk st) bad = None"
  shows "check_files env (pre @ bad # post) st =
     (st\<lparr>stdout := stdout st @ concat (map (report env (disk st)) pre) @ bad @ '': '',
         status := status st + non_conforming env (disk st) pre\<rparr>, Some FileAccessError)"
  using assms
  by (simp add: check_files_append check_files_checkable check_file_unreadable)

subsection \<open>Lines and names\<close>

lemma readlines_line:
  "LF \<notin> set l \<Longrightarrow> readlines (l @ LF # s) = (l @ [LF]) # readlines s"
  by (induction l) auto

text \<open>A line of \<open>readlines\<close> has no line feed but its last character.\<close>

lemma readlines_lines:
  "l \<in> set (readlines s) \<Longrightarrow> l \<noteq> [] \<and> LF \<notin> set (butlast l)"
proof (induction s arbitrary: l)
  case Nil
  then show ?case by simp
next
  case (Cons c cs)
  show ?case
  proof (cases "c = LF")
    case True
    with Cons show ?thesis by auto
  next
    case False
    show ?thesis
    proof (cases "readlines cs")
      case Nil
      with False Cons.prems show ?thesis by simp
    next
      case (Cons k ks)
      with Cons.IH [of k] have k: "k \<noteq> []" "LF \<notin> set (butlast k)"
        by simp_all
      from Cons False Cons.prems have "l = c # k \<or> l \<in> set ks"
        by simp
      then show ?thesis
      proof
        assume "l = c # k"
        with k False show ?thesis by simp
      next
        assume "l \<in> set ks"
        with Cons Cons.IH [of l] show ?thesis by simp
      qed
    qed
  qed
qed

text \<open>Stripping leaves a part of the text.\<close>

lemma strip_left_Nil [simp]: "strip_left ws [] = []"
proof -
  have "find (\<lambda>w. w \<noteq> [] \<and> prefix w []) ws = None"
    by (auto simp: find_None_iff)
  then show ?thesis by (simp add: strip_left.simps)
qed

lemma strip_left_suffix: "suffix (strip_left ws s) s"
proof (induction ws s rule: strip_left.induct)
  case (1 ws s)
  show ?case
  proof (cases "find (\<lambda>w. w \<noteq> [] \<and> prefix w s) ws")
    case None
    then show ?thesis by (simp add: strip_left.simps)
  next
    case (Some w)
    with 1 have "suffix (strip_left ws (drop (length w) s)) (drop (length w) s)"
      by simp
    moreover have "suffix (drop (length w) s) s"
      by (rule suffix_drop)
    ultimately have "suffix (strip_left ws (drop (length w) s)) s"
      by (rule suffix_order.trans)
    with Some show ?thesis by (simp add: strip_left.simps)
  qed
qed

lemma butlast_suffix: "suffix m l \<Longrightarrow> set (butlast m) \<subseteq> set (butlast l)"
proof (cases "m = []")
  case True
  then show ?thesis by simp
next
  case False
  assume "suffix m l"
  then obtain p where "l = p @ m" by (auto simp: suffix_def)
  with False show ?thesis by (simp add: butlast_append)
qed

text \<open>A line feed at the end is whitespace, and goes.\<close>

lemma strip_left_LF:
  "strip_left (map rev whitespace) (LF # r) = strip_left (map rev whitespace) r"
proof -
  have "find (\<lambda>w. w \<noteq> [] \<and> prefix w (LF # r)) (map rev whitespace) = Some [LF]"
    by (simp add: whitespace_def LF_def)
  then show ?thesis by (simp add: strip_left.simps)
qed

lemma rstrip_no_LF:
  assumes "LF \<notin> set (butlast m)"
  shows "LF \<notin> set (rstrip m)"
proof (cases m rule: rev_cases)
  case Nil
  then show ?thesis by (simp add: rstrip_def)
next
  case (snoc ys y)
  with assms have n: "LF \<notin> set ys" by simp
  show ?thesis
  proof (cases "y = LF")
    case True
    have "suffix (strip_left (map rev whitespace) (rev ys)) (rev ys)"
      by (rule strip_left_suffix)
    then have "set (strip_left (map rev whitespace) (rev ys)) \<subseteq> set ys"
      using set_mono_suffix by fastforce
    with n True snoc show ?thesis
      by (auto simp: rstrip_def strip_left_LF)
  next
    case False
    have "suffix (strip_left (map rev whitespace) (rev m)) (rev m)"
      by (rule strip_left_suffix)
    then have "set (strip_left (map rev whitespace) (rev m)) \<subseteq> set m"
      using set_mono_suffix by fastforce
    with n False snoc show ?thesis
      by (auto simp: rstrip_def)
  qed
qed

lemma strip_no_LF:
  assumes "LF \<notin> set (butlast l)"
  shows "LF \<notin> set (strip l)"
proof -
  have "suffix (lstrip l) l"
    unfolding lstrip_def by (rule strip_left_suffix)
  then have "set (butlast (lstrip l)) \<subseteq> set (butlast l)"
    by (rule butlast_suffix)
  with assms have "LF \<notin> set (butlast (lstrip l))"
    by auto
  then show ?thesis
    unfolding strip_def by (rule rstrip_no_LF)
qed

lemma files_no_LF:
  assumes "files env stdin = Inr names" and "name \<in> set names"
  shows "LF \<notin> set name"
proof -
  from assms obtain ls where "names = map strip ls" and "stdin_readlines env stdin = Inr ls"
    by (auto simp: files_def split: sum.splits)
  with assms(2) obtain decoded l where "l \<in> set (readlines decoded)" and "name = strip l"
    by (auto simp: stdin_readlines_def split: sum.splits)
  with readlines_lines [of l decoded] strip_no_LF [of l] show ?thesis
    by simp
qed

lemma strip_blank: "blank l \<Longrightarrow> strip l = []"
  by (simp add: blank_def strip_def rstrip_def)

subsection \<open>Texts without the characters that matter\<close>

lemma universal_newlines_no_CR: "CR \<notin> set s \<Longrightarrow> universal_newlines s = s"
  by (induction s rule: universal_newlines.induct) auto

lemma sed_mask_no_hash: "CHR ''#'' \<notin> set s \<Longrightarrow> sed_mask s = s"
  using sed_mask_indent [of s "[]"] by simp

lemma sed_unmask_no_slash: "CHR ''/'' \<notin> set s \<Longrightarrow> sed_unmask s = s"
  using sed_unmask_indent [of s "[]"] by simp

text \<open>ASCII is UTF-8.\<close>

lemma utf8_valid_ascii: "\<forall>c \<in> set s. byte c < 0x80 \<Longrightarrow> utf8_valid s"
proof (induction s)
  case Nil
  then show ?case by (simp add: utf8_valid.simps)
next
  case (Cons c cs)
  then have "utf8_seq (c # cs) = 1" by (simp add: utf8_seq_def)
  with Cons show ?case by (simp add: utf8_valid.simps [of "c # cs"])
qed

lemma decode_utf8_codec_ascii:
  "\<forall>c \<in> set s. byte c < 0x80 \<Longrightarrow> decode utf8_codec s = Inr s"
  by (simp add: decode_def utf8_codec_def utf8_valid_ascii)

subsection \<open>The whole run\<close>

lemma main_completes:
  assumes "files env stdin = Inr names"
    and "\<forall>name \<in> set names. checkable env dsk name"
  shows "main env dsk stdin =
     (\<lparr>disk = dsk, stdout = concat (map (report env dsk) names),
       status = non_conforming env dsk names\<rparr>,
      Exit (non_conforming env dsk names))"
  using assms by (simp add: main_def initial_def check_files_checkable)

lemma main_aborts:
  assumes "files env stdin = Inr (pre @ bad # post)"
    and "\<forall>name \<in> set pre. checkable env dsk name"
    and "file_bytes dsk bad = None"
  shows "main env dsk stdin =
     (\<lparr>disk = dsk, stdout = concat (map (report env dsk) pre) @ bad @ '': '',
       status = non_conforming env dsk pre\<rparr>,
      Uncaught FileAccessError)"
  using assms by (simp add: main_def initial_def check_files_abort)

text \<open>A run on names without a dash leaves the file system as it is.\<close>

lemma main_disk:
  assumes "files env stdin = Inr names" and "\<forall>name \<in> set names. \<not> dashed name"
  shows "disk (fst (main env dsk stdin)) = dsk"
proof -
  obtain st r where c: "check_files env names (initial dsk) = (st, r)"
    by (cases "check_files env names (initial dsk)")
  with disk_check_files [OF assms(2), of env "initial dsk"] have "disk st = dsk"
    by (simp add: initial_def)
  with c assms(1) show ?thesis
    by (cases r) (simp_all add: main_def)
qed

lemma files_ascii:
  assumes "stdin_codec env = utf8_codec" and "\<forall>c \<in> set s. byte c < 0x80"
  shows "files env s = Inr (map strip (readlines s))"
  using assms by (simp add: files_def stdin_readlines_def decode_utf8_codec_ascii)

lemma readlines_replicate:
  "LF \<notin> set l \<Longrightarrow> readlines (concat (replicate n (l @ [LF]))) = replicate n (l @ [LF])"
  by (induction n) (simp_all add: readlines_line)

text \<open>A run that raises nothing has printed one report for every name.\<close>

lemma check_file_report:
  assumes "check_file env name st = (st', None)"
  shows "\<exists>ok. stdout st' = stdout st @ report_line name ok \<and>
     status st' = status st + (if ok then 0 else 1)"
proof -
  from assms obtain original where o: "open_read env st name = Inr original"
    by (cases "open_read env st name") (auto simp: check_file_def Let_def py_print_def)
  obtain dsk2 r where p: "pipeline env st name = (dsk2, r)"
    by (cases "pipeline env st name")
  with assms o obtain formatted where "r = Inr formatted"
    by (cases r) (auto simp: check_file_def Let_def py_print_def)
  with p have p': "pipeline env st name = (dsk2, Inr formatted)"
    by simp
  show ?thesis
  proof (cases "original = formatted")
    case True
    with check_file_compares [OF o p'] assms
    have "stdout st' = stdout st @ report_line name True \<and> status st' = status st + (if True then 0 else 1)"
      by (auto simp: report_line_def)
    then show ?thesis ..
  next
    case False
    with check_file_compares [OF o p'] assms
    have "stdout st' = stdout st @ report_line name False \<and> status st' = status st + (if False then 0 else 1)"
      by (auto simp: report_line_def)
    then show ?thesis ..
  qed
qed

lemma check_files_reports:
  "check_files env names st = (st', None) \<Longrightarrow>
     \<exists>oks. length oks = length names \<and>
       stdout st' = stdout st @ concat (map2 report_line names oks) \<and>
       status st' = status st + length (filter Not oks)"
proof (induction names arbitrary: st)
  case Nil
  then show ?case by simp
next
  case (Cons name names)
  obtain st1 r where c: "check_file env name st = (st1, r)"
    by (cases "check_file env name st")
  with Cons.prems have r: "r = None" and rest: "check_files env names st1 = (st', None)"
    by (cases r; simp)+
  from c r obtain ok where ok: "stdout st1 = stdout st @ report_line name ok"
    "status st1 = status st + (if ok then 0 else 1)"
    using check_file_report [of env name st st1] by auto
  from Cons.IH [OF rest] obtain oks where oks: "length oks = length names"
    "stdout st' = stdout st1 @ concat (map2 report_line names oks)"
    "status st' = status st1 + length (filter Not oks)"
    by auto
  from ok oks have "length (ok # oks) = length (name # names) \<and>
       stdout st' = stdout st @ concat (map2 report_line (name # names) (ok # oks)) \<and>
       status st' = status st + length (filter Not (ok # oks))"
    by simp
  then show ?case by blast
qed

text \<open>Every report has two line feeds, when the name has none.\<close>

lemma report_line_two_LF:
  assumes "LF \<notin> set name"
  shows "length (filter (\<lambda>c. c = LF) (report_line name ok)) = 2"
proof -
  from assms have "filter (\<lambda>c. c = LF) name = []"
    by (induction name) auto
  moreover have "filter (\<lambda>c. c = LF) '': '' = []"
    and "filter (\<lambda>c. c = LF) ''OK'' = []"
    and "filter (\<lambda>c. c = LF) ''needs formatting'' = []"
    by (simp_all add: LF_def)
  ultimately show ?thesis
    by (simp add: report_line_def LF_def)
qed

lemma report_lines_LF_count:
  assumes "length oks = length names" and "\<forall>name \<in> set names. LF \<notin> set name"
  shows "length (filter (\<lambda>c. c = LF) (concat (map2 report_line names oks))) = 2 * length names"
  using assms
proof (induction oks names rule: list_induct2)
  case Nil
  then show ?case by simp
next
  case (Cons ok oks name names)
  then show ?case by (simp add: report_line_two_LF)
qed

lemma main_exits:
  assumes "files env stdin = Inr names" and "snd (main env dsk stdin) = Exit n"
  shows "\<exists>oks. length oks = length names \<and>
     stdout (fst (main env dsk stdin)) = concat (map2 report_line names oks) \<and>
     length (filter Not oks) = n"
proof -
  obtain st r where c: "check_files env names (initial dsk) = (st, r)"
    by (cases "check_files env names (initial dsk)")
  with assms have r: "r = None" and n: "n = status st"
    by (cases r; simp add: main_def)+
  from c r assms(1) have m: "fst (main env dsk stdin) = st"
    by (simp add: main_def)
  from c r check_files_reports [of env names "initial dsk" st]
  obtain oks where "length oks = length names"
    and "stdout st = concat (map2 report_line names oks)"
    and "status st = length (filter Not oks)"
    by (auto simp: initial_def)
  with n m have "length oks = length names \<and>
     stdout (fst (main env dsk stdin)) = concat (map2 report_line names oks) \<and>
     length (filter Not oks) = n"
    by simp
  then show ?thesis ..
qed

subsection \<open>A file on a machine with a UTF-8 locale\<close>

lemma open_read_ascii:
  assumes "file_bytes (disk st) name = Some bytes" and "locale_codec env = utf8_codec"
    and "\<forall>c \<in> set bytes. byte c < 0x80"
  shows "open_read env st name = Inr (universal_newlines bytes)"
  using assms by (simp add: open_read_def decode_utf8_codec_ascii)

lemma pipeline_undashed:
  assumes "file_bytes (disk st) name = Some bytes" and "\<not> dashed name"
    and "on_path env ''sed''" and "on_path env ''clang-format-mp-7.0''"
  shows "pipeline env st name = (disk st, decode_utf8 (formatted_of env bytes))"
  using assms by (simp add: pipeline_def sed_file_def formatted_of_def)

lemma checkable_ascii:
  assumes "file_bytes dsk name = Some bytes" and "\<not> dashed name"
    and "locale_codec env = utf8_codec" and "\<forall>c \<in> set bytes. byte c < 0x80"
    and "on_path env ''sed''" and "on_path env ''clang-format-mp-7.0''"
    and "utf8_valid (formatted_of env bytes)"
  shows "checkable env dsk name"
  using assms by (simp add: checkable_def decode_utf8_codec_ascii)

lemma conforms_ascii:
  assumes "file_bytes dsk name = Some bytes"
    and "locale_codec env = utf8_codec" and "\<forall>c \<in> set bytes. byte c < 0x80"
  shows "conforms env dsk name = (universal_newlines bytes = formatted_of env bytes)"
  using assms by (simp add: conforms_def decode_utf8_codec_ascii)

subsection \<open>The concrete files\<close>

lemma bytes_a: "file_bytes demo_disk ''a.cpp'' = Some (''int x;'' @ [LF])"
  by (simp add: file_bytes_def demo_disk_def)

lemma bytes_b: "file_bytes demo_disk ''b.cpp'' = Some ([CHR 0x09] @ ''int y;'' @ [LF])"
  by (simp add: file_bytes_def demo_disk_def)

lemma bytes_d: "file_bytes demo_disk ''d.cpp'' = Some (''int z;'' @ [CR, LF])"
  by (simp add: file_bytes_def demo_disk_def)


lemma formatted_a: "formatted_of echo_tools (''int x;'' @ [LF]) = ''int x;'' @ [LF]"
  by (simp add: formatted_of_def echo_tools_def sed_unmask_sed_mask)

lemma formatted_b: "formatted_of untab_tools ([CHR 0x09] @ ''int y;'' @ [LF]) = '' int y;'' @ [LF]"
  by (simp add: formatted_of_def untab_tools_def sed_mask_no_hash sed_unmask_no_slash LF_def)

lemma formatted_d: "formatted_of echo_tools (''int z;'' @ [CR, LF]) = ''int z;'' @ [CR, LF]"
  by (simp add: formatted_of_def echo_tools_def sed_unmask_sed_mask)

lemma open_read_a: "open_read echo_tools (initial demo_disk) ''a.cpp'' = Inr (''int x;'' @ [LF])"
proof -
  have "open_read echo_tools (initial demo_disk) ''a.cpp'' = Inr (universal_newlines (''int x;'' @ [LF]))"
    by (rule open_read_ascii) (simp_all add: initial_def bytes_a echo_tools_def byte_def LF_def)
  then show ?thesis by (simp add: CR_def LF_def)
qed


lemma open_read_d: "open_read echo_tools (initial demo_disk) ''d.cpp'' = Inr (''int z;'' @ [LF])"
proof -
  have "open_read echo_tools (initial demo_disk) ''d.cpp'' =
      Inr (universal_newlines (''int z;'' @ [CR, LF]))"
    by (rule open_read_ascii) (simp_all add: initial_def bytes_d echo_tools_def byte_def CR_def LF_def)
  then show ?thesis by (simp add: CR_def LF_def)
qed


lemma pipeline_a:
  "pipeline echo_tools (initial demo_disk) ''a.cpp'' = (demo_disk, Inr (''int x;'' @ [LF]))"
proof -
  have p: "pipeline echo_tools (initial demo_disk) ''a.cpp'' =
      (disk (initial demo_disk), decode_utf8 (formatted_of echo_tools (''int x;'' @ [LF])))"
    by (rule pipeline_undashed) (simp_all add: initial_def bytes_a echo_tools_def dashed_def)
  have "utf8_valid (''int x;'' @ [LF])"
    by (rule utf8_valid_ascii) (simp add: byte_def CR_def LF_def)
  then have d: "decode_utf8 (formatted_of echo_tools (''int x;'' @ [LF])) = Inr (''int x;'' @ [LF])"
    unfolding formatted_a decode_utf8_def by simp
  show ?thesis
    unfolding p d by (simp add: initial_def)
qed


lemma pipeline_d:
  "pipeline echo_tools (initial demo_disk) ''d.cpp'' = (demo_disk, Inr (''int z;'' @ [CR, LF]))"
proof -
  have p: "pipeline echo_tools (initial demo_disk) ''d.cpp'' =
      (disk (initial demo_disk), decode_utf8 (formatted_of echo_tools (''int z;'' @ [CR, LF])))"
    by (rule pipeline_undashed) (simp_all add: initial_def bytes_d echo_tools_def dashed_def)
  have "utf8_valid (''int z;'' @ [CR, LF])"
    by (rule utf8_valid_ascii) (simp add: byte_def CR_def LF_def)
  then have d: "decode_utf8 (formatted_of echo_tools (''int z;'' @ [CR, LF])) = Inr (''int z;'' @ [CR, LF])"
    unfolding formatted_d decode_utf8_def by simp
  show ?thesis
    unfolding p d by (simp add: initial_def)
qed

lemma checkable_a: "checkable echo_tools demo_disk ''a.cpp''"
proof (rule checkable_ascii [OF bytes_a])
  show "utf8_valid (formatted_of echo_tools (''int x;'' @ [LF]))"
    unfolding formatted_a by (rule utf8_valid_ascii) (simp add: byte_def LF_def)
qed (simp_all add: echo_tools_def dashed_def byte_def LF_def)

lemma checkable_b: "checkable untab_tools demo_disk ''b.cpp''"
proof (rule checkable_ascii [OF bytes_b])
  show "utf8_valid (formatted_of untab_tools ([CHR 0x09] @ ''int y;'' @ [LF]))"
    unfolding formatted_b by (rule utf8_valid_ascii) (simp add: byte_def LF_def)
qed (simp_all add: untab_tools_def dashed_def byte_def LF_def)

lemma checkable_d: "checkable echo_tools demo_disk ''d.cpp''"
proof (rule checkable_ascii [OF bytes_d])
  show "utf8_valid (formatted_of echo_tools (''int z;'' @ [CR, LF]))"
    unfolding formatted_d by (rule utf8_valid_ascii) (simp add: byte_def CR_def LF_def)
qed (simp_all add: echo_tools_def dashed_def byte_def CR_def LF_def)

lemma conforms_a: "conforms echo_tools demo_disk ''a.cpp''"
proof -
  have "conforms echo_tools demo_disk ''a.cpp'' =
      (universal_newlines (''int x;'' @ [LF]) = formatted_of echo_tools (''int x;'' @ [LF]))"
    by (rule conforms_ascii [OF bytes_a]) (simp_all add: echo_tools_def byte_def LF_def)
  then show ?thesis unfolding formatted_a by (simp add: CR_def LF_def)
qed

lemma not_conforms_b: "\<not> conforms untab_tools demo_disk ''b.cpp''"
proof -
  have "conforms untab_tools demo_disk ''b.cpp'' =
      (universal_newlines ([CHR 0x09] @ ''int y;'' @ [LF]) =
       formatted_of untab_tools ([CHR 0x09] @ ''int y;'' @ [LF]))"
    by (rule conforms_ascii [OF bytes_b]) (simp_all add: untab_tools_def byte_def LF_def)
  then show ?thesis unfolding formatted_b by (simp add: CR_def LF_def)
qed

lemma not_conforms_d: "\<not> conforms echo_tools demo_disk ''d.cpp''"
proof -
  have "conforms echo_tools demo_disk ''d.cpp'' =
      (universal_newlines (''int z;'' @ [CR, LF]) = formatted_of echo_tools (''int z;'' @ [CR, LF]))"
    by (rule conforms_ascii [OF bytes_d]) (simp_all add: echo_tools_def byte_def CR_def LF_def)
  then show ?thesis unfolding formatted_d by (simp add: CR_def LF_def)
qed

lemma strip_a: "strip (''a.cpp'' @ [LF]) = ''a.cpp''"
  by (simp add: strip_def lstrip_def rstrip_def strip_left.simps whitespace_def LF_def)

lemma strip_b: "strip (''b.cpp'' @ [LF]) = ''b.cpp''"
  by (simp add: strip_def lstrip_def rstrip_def strip_left.simps whitespace_def LF_def)

lemma strip_d: "strip (''d.cpp'' @ [LF]) = ''d.cpp''"
  by (simp add: strip_def lstrip_def rstrip_def strip_left.simps whitespace_def LF_def)


lemma blank_spaces: "blank (''  '' @ [LF])"
  by (simp add: blank_def lstrip_def strip_left.simps whitespace_def LF_def)

subsection \<open>Concrete runs\<close>

lemma stdin_readlines_ascii:
  assumes "stdin_codec env = utf8_codec" and "\<forall>c \<in> set s. byte c < 0x80"
  shows "stdin_readlines env s = Inr (readlines s)"
  using assms by (simp add: stdin_readlines_def decode_utf8_codec_ascii)



lemma files_256:
  "files untab_tools (concat (replicate 256 (''b.cpp'' @ [LF]))) = Inr (replicate 256 ''b.cpp'')"
proof -
  have f: "files untab_tools (concat (replicate 256 (''b.cpp'' @ [LF]))) =
      Inr (map strip (readlines (concat (replicate 256 (''b.cpp'' @ [LF])))))"
    by (rule files_ascii) (auto simp: untab_tools_def byte_def LF_def)
  have "LF \<notin> set ''b.cpp''"
    by (simp add: LF_def)
  then have r: "readlines (concat (replicate 256 (''b.cpp'' @ [LF]))) = replicate 256 (''b.cpp'' @ [LF])"
    by (rule readlines_replicate)
  show ?thesis
    unfolding f r by (simp only: map_replicate strip_b)
qed

lemma readlines_a_blank_b:
  "readlines (''a.cpp'' @ [LF] @ ''  '' @ [LF] @ ''b.cpp'' @ [LF]) =
     [''a.cpp'' @ [LF]] @ (''  '' @ [LF]) # [''b.cpp'' @ [LF]]"
  by (simp add: LF_def)

lemma stdin_readlines_a_blank_b:
  "stdin_readlines echo_tools (''a.cpp'' @ [LF] @ ''  '' @ [LF] @ ''b.cpp'' @ [LF]) =
     Inr ([''a.cpp'' @ [LF]] @ (''  '' @ [LF]) # [''b.cpp'' @ [LF]])"
proof -
  have "stdin_readlines echo_tools (''a.cpp'' @ [LF] @ ''  '' @ [LF] @ ''b.cpp'' @ [LF]) =
      Inr (readlines (''a.cpp'' @ [LF] @ ''  '' @ [LF] @ ''b.cpp'' @ [LF]))"
    by (rule stdin_readlines_ascii) (simp_all add: echo_tools_def byte_def LF_def)
  then show ?thesis
    unfolding readlines_a_blank_b .
qed

lemma strip_spaces: "strip (''  '' @ [LF]) = []"
  by (rule strip_blank [OF blank_spaces])

lemma files_a_blank_b:
  "files echo_tools (''a.cpp'' @ [LF] @ ''  '' @ [LF] @ ''b.cpp'' @ [LF]) =
     Inr ([''a.cpp''] @ [] # [''b.cpp''])"
  unfolding files_def stdin_readlines_a_blank_b
  by (simp only: sum.case list.map map_append strip_a strip_b strip_spaces)

lemma files_a_d:
  "files echo_tools (''a.cpp'' @ [LF] @ ''d.cpp'' @ [LF]) = Inr [''a.cpp'', ''d.cpp'']"
proof -
  have f: "files echo_tools (''a.cpp'' @ [LF] @ ''d.cpp'' @ [LF]) =
      Inr (map strip (readlines (''a.cpp'' @ [LF] @ ''d.cpp'' @ [LF])))"
    by (rule files_ascii) (simp_all add: echo_tools_def byte_def LF_def)
  have r: "readlines (''a.cpp'' @ [LF] @ ''d.cpp'' @ [LF]) = [''a.cpp'' @ [LF], ''d.cpp'' @ [LF]]"
    by (simp add: LF_def)
  show ?thesis
    unfolding f r by (simp only: list.map strip_a strip_d)
qed

text \<open>The run on three lines, the second of two spaces.\<close>

lemma main_a_blank_b:
  "main echo_tools demo_disk (''a.cpp'' @ [LF] @ ''  '' @ [LF] @ ''b.cpp'' @ [LF]) =
     (\<lparr>disk = demo_disk, stdout = ''a.cpp: OK'' @ [LF, LF] @ '': '', status = 0\<rparr>,
      Uncaught FileAccessError)"
proof -
  have c: "\<forall>name \<in> set [''a.cpp'']. checkable echo_tools demo_disk name"
    by (simp add: checkable_a)
  have n: "file_bytes demo_disk [] = None"
    by (simp add: file_bytes_def)
  from main_aborts [OF files_a_blank_b c n] show ?thesis
    by (simp add: report_def conforms_a non_conforming_def)
qed

subsection \<open>Names that begin with a dash\<close>

lemma bytes_dash_n: "file_bytes dashed_disk ''-n'' = Some (''int x;'' @ [LF])"
  by (simp add: file_bytes_def dashed_disk_def)

lemma bytes_dash_ew: "file_bytes dashed_disk ''-ew victim.txt'' = Some (''int x;'' @ [LF])"
  by (simp add: file_bytes_def dashed_disk_def)

lemma open_read_dash_n:
  "open_read echo_tools (initial dashed_disk) ''-n'' = Inr (''int x;'' @ [LF])"
proof -
  have "open_read echo_tools (initial dashed_disk) ''-n'' = Inr (universal_newlines (''int x;'' @ [LF]))"
    by (rule open_read_ascii) (simp_all add: initial_def bytes_dash_n echo_tools_def byte_def LF_def)
  then show ?thesis by (simp add: CR_def LF_def)
qed

lemma open_read_dash_ew:
  "open_read echo_tools (initial dashed_disk) ''-ew victim.txt'' = Inr (''int x;'' @ [LF])"
proof -
  have "open_read echo_tools (initial dashed_disk) ''-ew victim.txt'' =
      Inr (universal_newlines (''int x;'' @ [LF]))"
    by (rule open_read_ascii) (simp_all add: initial_def bytes_dash_ew echo_tools_def byte_def LF_def)
  then show ?thesis by (simp add: CR_def LF_def)
qed

lemma pipeline_dash_n:
  "pipeline echo_tools (initial dashed_disk) ''-n'' = (dashed_disk, Inr [])"
  by (simp add: pipeline_def sed_file_def dashed_def echo_tools_def gnu_dashed_def initial_def
      decode_utf8_def utf8_valid.simps)

lemma pipeline_dash_ew:
  "pipeline echo_tools (initial dashed_disk) ''-ew victim.txt'' =
     (dashed_disk(''victim.txt'' \<mapsto> []), Inr [])"
  by (simp add: pipeline_def sed_file_def dashed_def echo_tools_def gnu_dashed_def initial_def
      decode_utf8_def utf8_valid.simps)

lemma bytes_latin: "file_bytes latin_disk ''l.cpp'' = Some (''// caf'' @ [CHR 0xE9, LF])"
  by (simp add: file_bytes_def latin_disk_def)

lemma not_utf8_latin: "\<not> utf8_valid (''// caf'' @ [CHR 0xE9, LF])"
  by (simp add: utf8_valid.simps utf8_seq_def byte_def conts_def cont_def second_def LF_def)

lemma open_read_latin:
  "open_read echo_tools (initial latin_disk) ''l.cpp'' = Inl UnicodeDecodeError"
  using not_utf8_latin
  by (simp add: open_read_def initial_def bytes_latin decode_def echo_tools_def utf8_codec_def)

lemma strip_dash_ew: "strip (''-ew victim.txt'' @ [LF]) = ''-ew victim.txt''"
  by (simp add: strip_def lstrip_def rstrip_def strip_left.simps whitespace_def LF_def)

lemma files_dash_ew: "files echo_tools (''-ew victim.txt'' @ [LF]) = Inr [''-ew victim.txt'']"
proof -
  have f: "files echo_tools (''-ew victim.txt'' @ [LF]) =
      Inr (map strip (readlines (''-ew victim.txt'' @ [LF])))"
    by (rule files_ascii) (simp_all add: echo_tools_def byte_def LF_def)
  have r: "readlines (''-ew victim.txt'' @ [LF]) = [''-ew victim.txt'' @ [LF]]"
    by (simp add: LF_def)
  show ?thesis
    unfolding f r by (simp only: list.map strip_dash_ew)
qed

section \<open>The claims\<close>

text \<open>
  C1. After all paths are processed the exit code is the number of files that need
  formatting, and it is 0 exactly when every file conforms. The script does pass that
  number to \<^verbatim>\<open>sys.exit\<close> (\<open>main_completes\<close>), but the exit status of a process has eight
  bits: with 256 files that need formatting the script calls \<^verbatim>\<open>sys.exit(256)\<close> and the
  process ends with status 0, the status of a run in which every file conforms.
\<close>

theorem exit_code_wraps:
  "snd (main untab_tools demo_disk (concat (replicate 256 (''b.cpp'' @ [LF])))) = Exit 256 \<and>
   exit_code (snd (main untab_tools demo_disk (concat (replicate 256 (''b.cpp'' @ [LF]))))) = 0"
proof -
  have c: "\<forall>name \<in> set (replicate 256 ''b.cpp''). checkable untab_tools demo_disk name"
    by (simp add: checkable_b)
  have "non_conforming untab_tools demo_disk (replicate 256 ''b.cpp'') = 256"
    by (simp add: non_conforming_def not_conforms_b)
  with main_completes [OF files_256 c] show ?thesis
    by simp
qed



text \<open>
  C3. The comparison that decides is byte for byte between the output of the pipeline
  and the content of the file. The script does not do that for a file with the line
  ending \<open>CR LF\<close>: the file \<open>d.cpp\<close> has the bytes \<open>int z; CR LF\<close>, the pipeline (with a
  formatter that changes nothing) prints exactly these bytes, and the script reports that
  the file needs formatting. The text it compares with is what \<^verbatim>\<open>open(name, 'r')\<close>
  returns, in which \<open>CR LF\<close> has become \<open>LF\<close>; the output of the pipeline is not
  translated.
\<close>

theorem crlf_file_flagged:
  "file_bytes demo_disk ''d.cpp'' = Some (''int z;'' @ [CR, LF]) \<and>
   pipeline echo_tools (initial demo_disk) ''d.cpp'' = (demo_disk, Inr (''int z;'' @ [CR, LF])) \<and>
   check_file echo_tools ''d.cpp'' (initial demo_disk) =
     (\<lparr>disk = demo_disk, stdout = ''d.cpp: needs formatting'' @ [LF, LF], status = 1\<rparr>, None)"
  using check_file_compares [OF open_read_d pipeline_d] bytes_d pipeline_d
  by (simp add: initial_def CR_def LF_def)

text \<open>
  C4, as stated: masking, formatting and unmasking leave a line with the marker unaltered,
  even when the formatter would reflow it. Nothing in the script keeps the formatter from
  changing the comment that the masked line is: a formatter that breaks the comment
  \<open>//#pragma omp parallel for\<close> after \<open>parallel\<close> gives a directive that has lost its
  \<open>for\<close>.
\<close>

theorem directive_line_reflowed:
  "formatted_of reflow_tools (''#pragma omp parallel for'' @ [LF]) =
     ''#pragma omp parallel'' @ [LF] @ ''// for'' @ [LF] \<and>
   formatted_of reflow_tools (''#pragma omp parallel for'' @ [LF]) \<noteq>
     ''#pragma omp parallel for'' @ [LF]"
  by (simp add: formatted_of_def reflow_tools_def sed_mask.simps(2) sed_unmask.simps(2)
      match_commented_def marker_def LF_def)

text \<open>
  C4, amended. Take a line of the file that is indentation, the marker and the rest of the
  directive. The formatter gets this line with two slashes before the marker: a comment.
  Whatever the formatter does to the other lines, and whatever indentation and however
  many spaces behind the slashes it gives this one: when the comment is a line of its
  output with the marker and what follows it as they were, the pipeline returns on this
  line the marker and the rest of the directive as they are in the file, behind the
  indentation the formatter chose.
\<close>

theorem directive_line_restored:
  assumes "a = [] \<or> last a = LF" and "CHR ''#'' \<notin> set ind"
    and "pre = [] \<or> last pre = LF" and "CHR ''/'' \<notin> set ind'"
    and "clang_format env (sed_mask (a @ ind @ marker @ rest @ LF # b)) =
           pre @ ind' @ ''//'' @ replicate k (CHR '' '') @ marker @ sed_mask rest @ LF # post"
  shows "sed_mask (a @ ind @ marker @ rest @ LF # b) =
           sed_mask a @ ind @ ''//'' @ marker @ sed_mask rest @ LF # sed_mask b \<and>
         formatted_of env (a @ ind @ marker @ rest @ LF # b) =
           sed_unmask pre @ ind' @ marker @ rest @ LF # sed_unmask post"
proof
  have "sed_mask (a @ ind @ marker @ rest @ LF # b) = sed_mask a @ sed_mask (ind @ marker @ rest @ LF # b)"
    using assms(1) by (rule sed_mask_lines)
  also have "sed_mask (ind @ marker @ rest @ LF # b) = ind @ sed_mask (marker @ rest @ LF # b)"
    using assms(2) by (rule sed_mask_indent)
  also have "sed_mask (marker @ rest @ LF # b) = ''//'' @ marker @ sed_mask (rest @ LF # b)"
    by (rule sed_mask_marker)
  also have "sed_mask (rest @ LF # b) = sed_mask rest @ LF # sed_mask b"
    by (rule sed_mask_LF)
  finally show "sed_mask (a @ ind @ marker @ rest @ LF # b) =
      sed_mask a @ ind @ ''//'' @ marker @ sed_mask rest @ LF # sed_mask b" .
next
  let ?c = "''//'' @ replicate k (CHR '' '') @ marker @ sed_mask rest @ LF # post"
  have "formatted_of env (a @ ind @ marker @ rest @ LF # b) = sed_unmask (pre @ ind' @ ?c)"
    by (simp only: formatted_of_def assms(5))
  also have "\<dots> = sed_unmask pre @ sed_unmask (ind' @ ?c)"
    using assms(3) by (rule sed_unmask_lines)
  also have "sed_unmask (ind' @ ?c) = ind' @ sed_unmask ?c"
    using assms(4) by (rule sed_unmask_indent)
  also have "sed_unmask ?c = marker @ sed_unmask (sed_mask rest @ LF # post)"
    by (rule sed_unmask_spaces)
  also have "sed_unmask (sed_mask rest @ LF # post) = sed_unmask (sed_mask rest) @ LF # sed_unmask post"
    by (rule sed_unmask_LF)
  also have "sed_unmask (sed_mask rest) = rest"
    by (rule sed_unmask_sed_mask)
  finally show "formatted_of env (a @ ind @ marker @ rest @ LF # b) =
      sed_unmask pre @ ind' @ marker @ rest @ LF # sed_unmask post" .
qed

text \<open>A directive with two spaces between its words, between two assignments: the
  formatter puts spaces around \<open>=\<close> and one space behind the slashes of the comment.\<close>

theorem directive_line_restored_witness:
  "last (''x=1;'' @ [LF]) = LF \<and> CHR ''#'' \<notin> set ''  '' \<and>
   last (''x = 1;'' @ [LF]) = LF \<and> CHR ''/'' \<notin> set ''  '' \<and>
   clang_format tidy_tools
     (sed_mask (''x=1;'' @ [LF] @ ''  #pragma omp parallel  for'' @ [LF] @ ''y=2;'' @ [LF])) =
     ''x = 1;'' @ [LF] @ ''  // #pragma omp parallel  for'' @ [LF] @ ''y = 2;'' @ [LF] \<and>
   formatted_of tidy_tools
     (''x=1;'' @ [LF] @ ''  #pragma omp parallel  for'' @ [LF] @ ''y=2;'' @ [LF]) =
     ''x = 1;'' @ [LF] @ ''  #pragma omp parallel  for'' @ [LF] @ ''y = 2;'' @ [LF]"
proof -
  have h1: "''x=1;'' @ [LF] = [] \<or> last (''x=1;'' @ [LF]) = LF"
    and h2: "CHR ''#'' \<notin> set ''  ''"
    and h3: "''x = 1;'' @ [LF] = [] \<or> last (''x = 1;'' @ [LF]) = LF"
    and h4: "CHR ''/'' \<notin> set ''  ''"
    by simp_all
  have h5: "clang_format tidy_tools
      (sed_mask ((''x=1;'' @ [LF]) @ ''  '' @ marker @ '' parallel  for'' @ LF # (''y=2;'' @ [LF]))) =
      (''x = 1;'' @ [LF]) @ ''  '' @ ''//'' @ replicate 1 (CHR '' '') @ marker @
        sed_mask '' parallel  for'' @ LF # (''y = 2;'' @ [LF])"
    by (simp add: tidy_tools_def sed_mask.simps(2) marker_def LF_def)
  have u: "sed_unmask (''x = 1;'' @ [LF]) = ''x = 1;'' @ [LF]"
    "sed_unmask (''y = 2;'' @ [LF]) = ''y = 2;'' @ [LF]"
    by (simp_all add: sed_unmask_no_slash LF_def)
  from directive_line_restored [OF h1 h2 h3 h4 h5] h5 u show ?thesis
    by (simp add: marker_def sed_mask.simps(2) LF_def)
qed




text \<open>
  C6, as stated: for every input list the standard output has two lines for every input
  file, in the order of the input. It has not when a file cannot be checked: of the three
  lines \<open>a.cpp\<close>, two spaces, \<open>b.cpp\<close> the script reports the first, prints a colon and a
  space for the second and ends with the exception. Three names, and two line feeds on the
  standard output; nothing about \<open>b.cpp\<close>.
\<close>

theorem blank_line_ends_reports:
  "files echo_tools (''a.cpp'' @ [LF] @ ''  '' @ [LF] @ ''b.cpp'' @ [LF]) =
     Inr [''a.cpp'', [], ''b.cpp''] \<and>
   stdout (fst (main echo_tools demo_disk (''a.cpp'' @ [LF] @ ''  '' @ [LF] @ ''b.cpp'' @ [LF]))) =
     ''a.cpp: OK'' @ [LF, LF] @ '': '' \<and>
   length (filter (\<lambda>c. c = LF)
     (stdout (fst (main echo_tools demo_disk (''a.cpp'' @ [LF] @ ''  '' @ [LF] @ ''b.cpp'' @ [LF]))))) = 2 \<and>
   snd (main echo_tools demo_disk (''a.cpp'' @ [LF] @ ''  '' @ [LF] @ ''b.cpp'' @ [LF])) =
     Uncaught FileAccessError"
  using files_a_blank_b main_a_blank_b by (simp add: LF_def)

text \<open>
  C6, amended: when the run raises nothing and so ends with \<^verbatim>\<open>sys.exit\<close>, the standard
  output is one report for every file, in the order of the input, each report being the
  name, a colon and a space, \<open>OK\<close> or \<open>needs formatting\<close>, the line feed that ends this
  line and the line feed of an empty line: two lines for every file. The number of reports
  with \<open>needs formatting\<close> is the number given to \<^verbatim>\<open>sys.exit\<close>.
\<close>

theorem reports_in_order:
  assumes "files env stdin = Inr names" and "snd (main env dsk stdin) = Exit n"
  shows "(\<exists>oks. length oks = length names \<and>
            stdout (fst (main env dsk stdin)) = concat (map2 report_line names oks) \<and>
            length (filter Not oks) = n) \<and>
     length (filter (\<lambda>c. c = LF) (stdout (fst (main env dsk stdin)))) = 2 * length names"
proof -
  from main_exits [OF assms] obtain oks where oks: "length oks = length names"
    "stdout (fst (main env dsk stdin)) = concat (map2 report_line names oks)"
    "length (filter Not oks) = n"
    by blast
  from assms(1) have "\<forall>name \<in> set names. LF \<notin> set name"
    by (auto dest: files_no_LF)
  with oks(1) have "length (filter (\<lambda>c. c = LF) (concat (map2 report_line names oks))) =
      2 * length names"
    by (rule report_lines_LF_count)
  with oks show ?thesis
    by auto
qed

text \<open>Two files, the first conforming, the second not.\<close>

theorem reports_in_order_witness:
  "files echo_tools (''a.cpp'' @ [LF] @ ''d.cpp'' @ [LF]) = Inr [''a.cpp'', ''d.cpp''] \<and>
   snd (main echo_tools demo_disk (''a.cpp'' @ [LF] @ ''d.cpp'' @ [LF])) = Exit 1 \<and>
   stdout (fst (main echo_tools demo_disk (''a.cpp'' @ [LF] @ ''d.cpp'' @ [LF]))) =
     concat (map2 report_line [''a.cpp'', ''d.cpp''] [True, False]) \<and>
   stdout (fst (main echo_tools demo_disk (''a.cpp'' @ [LF] @ ''d.cpp'' @ [LF]))) =
     ''a.cpp: OK'' @ [LF, LF] @ ''d.cpp: needs formatting'' @ [LF, LF] \<and>
   length (filter (\<lambda>c. c = LF)
     (stdout (fst (main echo_tools demo_disk (''a.cpp'' @ [LF] @ ''d.cpp'' @ [LF]))))) = 4"
proof -
  have c: "\<forall>name \<in> set [''a.cpp'', ''d.cpp'']. checkable echo_tools demo_disk name"
    by (simp add: checkable_a checkable_d)
  have m: "main echo_tools demo_disk (''a.cpp'' @ [LF] @ ''d.cpp'' @ [LF]) =
     (\<lparr>disk = demo_disk,
       stdout = ''a.cpp: OK'' @ [LF, LF] @ ''d.cpp: needs formatting'' @ [LF, LF], status = 1\<rparr>,
      Exit 1)"
    using main_completes [OF files_a_d c]
    by (simp add: report_def non_conforming_def conforms_a not_conforms_d)
  then have x: "snd (main echo_tools demo_disk (''a.cpp'' @ [LF] @ ''d.cpp'' @ [LF])) = Exit 1"
    by simp
  from reports_in_order [OF files_a_d x] files_a_d x m show ?thesis
    by (simp add: report_line_def LF_def)
qed

text \<open>
  C7. With an empty standard input the script prints nothing and exits with code 0.
\<close>

theorem empty_input:
  "main env dsk [] = (\<lparr>disk = dsk, stdout = [], status = 0\<rparr>, Exit 0) \<and>
   exit_code (snd (main env dsk [])) = 0"
  by (simp add: main_def initial_def files_def stdin_readlines_def decode_def)

text \<open>
  C8. A run changes no file: every file has after the run the content it had before. Not
  so on a machine with GNU sed when a name begins with a dash, because the script gives
  the name to \<^verbatim>\<open>sed\<close> with no \<^verbatim>\<open>--\<close> before it: for the readable file named
  \<^verbatim>\<open>-ew victim.txt\<close> the first process runs the command \<^verbatim>\<open>w victim.txt\<close>, and after
  the run the file \<^verbatim>\<open>victim.txt\<close>, which had a line, is empty. (A run on names without
  a dash changes no file: \<open>main_disk\<close>.)
\<close>

theorem dashed_name_empties_file:
  "dashed_disk ''victim.txt'' = Some (''precious'' @ [LF]) \<and>
   main echo_tools dashed_disk (''-ew victim.txt'' @ [LF]) =
     (\<lparr>disk = dashed_disk(''victim.txt'' \<mapsto> []),
       stdout = ''-ew victim.txt: needs formatting'' @ [LF, LF], status = 1\<rparr>, Exit 1) \<and>
   disk (fst (main echo_tools dashed_disk (''-ew victim.txt'' @ [LF]))) ''victim.txt'' = Some []"
proof -
  have o: "open_read echo_tools (initial dashed_disk) ''-ew victim.txt'' = Inr (''int x;'' @ [LF])"
    by (rule open_read_dash_ew)
  have "check_file echo_tools ''-ew victim.txt'' (initial dashed_disk) =
     (\<lparr>disk = dashed_disk(''victim.txt'' \<mapsto> []),
       stdout = ''-ew victim.txt: needs formatting'' @ [LF, LF], status = 1\<rparr>, None)"
    using check_file_compares [OF o pipeline_dash_ew] by (simp add: initial_def)
  then have "main echo_tools dashed_disk (''-ew victim.txt'' @ [LF]) =
     (\<lparr>disk = dashed_disk(''victim.txt'' \<mapsto> []),
       stdout = ''-ew victim.txt: needs formatting'' @ [LF, LF], status = 1\<rparr>, Exit 1)"
    unfolding main_def files_dash_ew by simp
  then show ?thesis
    by (simp add: dashed_disk_def)
qed



text \<open>
  C10, as stated: for every input path the input of the pipeline is a second read of the
  file, and the verdict compares two reads. Not for every path. The readable file named
  \<^verbatim>\<open>-n\<close>, on a machine with GNU sed: the first process takes the name as an option
  and reads no file, the pipeline prints nothing, and the script compares the text of the
  file with the empty text and reports that the file needs formatting, although the
  substitutions and the formatter would return the bytes of the file as they are. The
  file \<^verbatim>\<open>l.cpp\<close> with a byte that is no UTF-8, in a UTF-8 locale: the read of Python
  raises, the check ends there, and there is neither a pipeline nor a verdict.
\<close>

theorem path_not_read_twice:
  "file_bytes dashed_disk ''-n'' = Some (''int x;'' @ [LF]) \<and>
   formatted_of echo_tools (''int x;'' @ [LF]) = ''int x;'' @ [LF] \<and>
   pipeline echo_tools (initial dashed_disk) ''-n'' = (dashed_disk, Inr []) \<and>
   check_file echo_tools ''-n'' (initial dashed_disk) =
     (\<lparr>disk = dashed_disk, stdout = ''-n: needs formatting'' @ [LF, LF], status = 1\<rparr>, None) \<and>
   file_bytes latin_disk ''l.cpp'' = Some (''// caf'' @ [CHR 0xE9, LF]) \<and>
   open_read echo_tools (initial latin_disk) ''l.cpp'' = Inl UnicodeDecodeError \<and>
   check_file echo_tools ''l.cpp'' (initial latin_disk) =
     (\<lparr>disk = latin_disk, stdout = ''l.cpp: '', status = 0\<rparr>, Some UnicodeDecodeError)"
proof -
  have n: "check_file echo_tools ''-n'' (initial dashed_disk) =
     (\<lparr>disk = dashed_disk, stdout = ''-n: needs formatting'' @ [LF, LF], status = 1\<rparr>, None)"
    using check_file_compares [OF open_read_dash_n pipeline_dash_n]
    by (simp add: initial_def LF_def)
  have "check_file echo_tools ''l.cpp'' (initial latin_disk) =
     ((initial latin_disk)\<lparr>stdout := stdout (initial latin_disk) @ ''l.cpp'' @ '': ''\<rparr>,
      Some UnicodeDecodeError)"
    using open_read_latin by (simp add: check_file_def Let_def py_print_def)
  then have l: "check_file echo_tools ''l.cpp'' (initial latin_disk) =
     (\<lparr>disk = latin_disk, stdout = ''l.cpp: '', status = 0\<rparr>, Some UnicodeDecodeError)"
    by (simp add: initial_def)
  from bytes_dash_n formatted_a pipeline_dash_n n bytes_latin open_read_latin l show ?thesis
    by blast
qed

text \<open>
  C10, amended: for a file that can be read and decoded, whose name does not begin with a
  dash, and with both programs found, the pipeline does not get the text that Python has
  read: its first process opens the file by its name and reads the bytes of the file. The
  verdict compares the text of Python's read (decoded with the encoding of the locale,
  newlines translated) with the output of the pipeline on the bytes, decoded as UTF-8;
  when that output is not UTF-8 the check ends with the decoding error.
\<close>

theorem pipeline_reads_the_file_itself:
  assumes "file_bytes (disk st) name = Some bytes" and "\<not> dashed name"
    and "decode (locale_codec env) bytes = Inr decoded"
    and "on_path env ''sed''" and "on_path env ''clang-format-mp-7.0''"
  shows "open_read env st name = Inr (universal_newlines decoded) \<and>
     pipeline env st name =
       (disk st, decode_utf8 (sed_unmask (clang_format env (sed_mask bytes)))) \<and>
     check_file env name st =
       (case decode_utf8 (sed_unmask (clang_format env (sed_mask bytes))) of
          Inl e \<Rightarrow> (st\<lparr>stdout := stdout st @ name @ '': ''\<rparr>, Some e)
        | Inr formatted \<Rightarrow>
            if universal_newlines decoded = formatted
            then (st\<lparr>stdout := stdout st @ name @ '': '' @ ''OK'' @ [LF, LF]\<rparr>, None)
            else (st\<lparr>stdout := stdout st @ name @ '': '' @ ''needs formatting'' @ [LF, LF],
                     status := status st + 1\<rparr>, None))"
proof -
  from assms(1,3) have o: "open_read env st name = Inr (universal_newlines decoded)"
    by (simp add: open_read_def)
  from assms have p: "pipeline env st name =
      (disk st, decode_utf8 (sed_unmask (clang_format env (sed_mask bytes))))"
    by (simp add: pipeline_def sed_file_def)
  from o p show ?thesis
    by (simp add: check_file_def Let_def py_print_def split: sum.splits)
qed

text \<open>The file with \<open>CR LF\<close>: the two reads differ, and so the file is reported, although
  the pipeline would return the text that Python has read unchanged.\<close>

theorem pipeline_reads_the_file_itself_witness:
  "file_bytes (disk (initial demo_disk)) ''d.cpp'' = Some (''int z;'' @ [CR, LF]) \<and>
   \<not> dashed ''d.cpp'' \<and>
   decode (locale_codec echo_tools) (''int z;'' @ [CR, LF]) = Inr (''int z;'' @ [CR, LF]) \<and>
   on_path echo_tools ''sed'' \<and> on_path echo_tools ''clang-format-mp-7.0'' \<and>
   open_read echo_tools (initial demo_disk) ''d.cpp'' = Inr (''int z;'' @ [LF]) \<and>
   pipeline echo_tools (initial demo_disk) ''d.cpp'' = (demo_disk, Inr (''int z;'' @ [CR, LF])) \<and>
   sed_unmask (clang_format echo_tools (sed_mask (''int z;'' @ [LF]))) = ''int z;'' @ [LF] \<and>
   check_file echo_tools ''d.cpp'' (initial demo_disk) =
     (\<lparr>disk = demo_disk, stdout = ''d.cpp: needs formatting'' @ [LF, LF], status = 1\<rparr>, None)"
proof -
  have b: "file_bytes (disk (initial demo_disk)) ''d.cpp'' = Some (''int z;'' @ [CR, LF])"
    by (simp add: initial_def bytes_d)
  have n: "\<not> dashed ''d.cpp''"
    by (simp add: dashed_def)
  have l: "decode (locale_codec echo_tools) (''int z;'' @ [CR, LF]) = Inr (''int z;'' @ [CR, LF])"
    unfolding echo_tools_def by (simp add: decode_utf8_codec_ascii byte_def CR_def LF_def)
  have s: "on_path echo_tools ''sed''" and c: "on_path echo_tools ''clang-format-mp-7.0''"
    by (simp_all add: echo_tools_def)
  have u: "universal_newlines (''int z;'' @ [CR, LF]) = ''int z;'' @ [LF]"
    by (simp add: CR_def LF_def)
  have e: "sed_unmask (clang_format echo_tools (sed_mask (''int z;'' @ [CR, LF]))) = ''int z;'' @ [CR, LF]"
    and e': "sed_unmask (clang_format echo_tools (sed_mask (''int z;'' @ [LF]))) = ''int z;'' @ [LF]"
    by (simp_all add: echo_tools_def sed_unmask_sed_mask)
  have v: "decode_utf8 (''int z;'' @ [CR, LF]) = Inr (''int z;'' @ [CR, LF])"
    unfolding decode_utf8_def by (simp add: utf8_valid_ascii byte_def CR_def LF_def)
  from pipeline_reads_the_file_itself [OF b n l s c, unfolded u e v] b n l s c e' show ?thesis
    by (simp add: initial_def CR_def LF_def)
qed

end
